theory Spec2Isabelle
  imports Main "HOL-Library.AList" "HOL-Library.Sublist"
begin

section \<open>Blacklist index and matcher (index.cjs)\<close>

text \<open>
  The scanner reads \<^verbatim>\<open>compromised_packages.json\<close>, whose \<^verbatim>\<open>packages\<close> field is a
  list of \<^verbatim>\<open>{name, versions}\<close> objects, into the JavaScript \<^verbatim>\<open>Map\<close>
  \<^verbatim>\<open>COMPROMISED_PACKAGES_MAP\<close>.  A \<^verbatim>\<open>Map\<close> keeps its keys in insertion order and
  \<^verbatim>\<open>set\<close> on a key that is present replaces the value in place, which is what
  \<open>AList.update\<close> does on an association list.
\<close>

record package_entry =
  pkg_name :: string
  pkg_versions :: "string list"

type_synonym package_map = "(string \<times> string list) list"

text \<open>\<^verbatim>\<open>v.replace(/^v/, '')\<close>: the pattern is anchored and not global, so exactly one
  leading \<^verbatim>\<open>v\<close> is removed when there is one.\<close>

fun normalizeVersion :: "string \<Rightarrow> string" where
  "normalizeVersion [] = []"
| "normalizeVersion (c # cs) = (if c = CHR ''v'' then cs else c # cs)"

text \<open>The \<^verbatim>\<open>forEach\<close> of lines 90-94 of index.cjs, from the empty map.\<close>

fun loadPackages :: "package_entry list \<Rightarrow> package_map \<Rightarrow> package_map" where
  "loadPackages [] m = m"
| "loadPackages (pkg # pkgs) m =
     loadPackages pkgs (AList.update (pkg_name pkg) (map normalizeVersion (pkg_versions pkg)) m)"

definition COMPROMISED_PACKAGES_MAP :: "package_entry list \<Rightarrow> package_map" where
  "COMPROMISED_PACKAGES_MAP packages = loadPackages packages []"

text \<open>\<^verbatim>\<open>Array.prototype.includes\<close> on an array of strings: a left-to-right search by
  equality of the strings.\<close>

fun array_includes :: "string list \<Rightarrow> string \<Rightarrow> bool" where
  "array_includes [] x = False"
| "array_includes (y # ys) x = (if y = x then True else array_includes ys x)"

text \<open>
  The version handed to \<^verbatim>\<open>isCompromised\<close> is what the walker stored:
  \<^verbatim>\<open>pkgJson.version || 'unknown'\<close>, that is a non-empty string or, when the manifest
  holds something else under \<^verbatim>\<open>version\<close>, a truthy value that is not a string and
  has no \<^verbatim>\<open>replace\<close> method.
\<close>

datatype js_version = VString string | VOther

datatype js_error = TypeError

definition isCompromised :: "package_map \<Rightarrow> string \<Rightarrow> js_version \<Rightarrow> js_error + bool" where
  "isCompromised m packageName version =
     (case map_of m packageName of
        None \<Rightarrow> Inr False
      | Some compromisedVersions \<Rightarrow>
          (case version of
             VOther \<Rightarrow> Inl TypeError
           | VString v \<Rightarrow> Inr (array_includes compromisedVersions (normalizeVersion v))))"

section \<open>File system, as the walker sees it\<close>

text \<open>
  The target directory is made absolute by \<^verbatim>\<open>path.resolve\<close>, and every other path
  is built from it by \<^verbatim>\<open>path.join\<close>, which normalises.  A path is therefore
  kept as the list of its segments below the root.  \<^verbatim>\<open>path.join\<close> splits its
  arguments at \<^verbatim>\<open>/\<close>, drops empty and \<^verbatim>\<open>.\<close> segments, and lets \<^verbatim>\<open>..\<close> remove
  the segment before it (at the root there is nothing to remove).
\<close>

type_synonym path = "string list"

fun split_slash :: "string \<Rightarrow> string list" where
  "split_slash [] = [[]]"
| "split_slash (c # cs) =
     (if c = CHR ''/'' then [] # split_slash cs
      else (case split_slash cs of [] \<Rightarrow> [[c]] | s # ss \<Rightarrow> (c # s) # ss))"

definition join_segment :: "path \<Rightarrow> string \<Rightarrow> path" where
  "join_segment p s =
     (if s = [] \<or> s = ''.'' then p else if s = ''..'' then butlast p else p @ [s])"

definition path_join :: "path \<Rightarrow> string \<Rightarrow> path" where
  "path_join p s = foldl join_segment p (split_slash s)"

text \<open>A \<^verbatim>\<open>fs.Dirent\<close>, as \<^verbatim>\<open>readdirSync(dir, {withFileTypes: true})\<close> returns it.\<close>

record dirent =
  d_name :: string
  d_isDirectory :: bool
  d_isSymbolicLink :: bool

text \<open>What \<^verbatim>\<open>pkgJson.version\<close> evaluates to on a parsed manifest: a falsy value
  (\<^verbatim>\<open>undefined\<close>, \<^verbatim>\<open>null\<close>, \<^verbatim>\<open>0\<close>, \<^verbatim>\<open>false\<close>), a string, or some other truthy
  value.\<close>

datatype js_value = JFalsy | JString string | JOther

text \<open>
  The file system is read through four calls.  \<open>existsSync\<close> never throws;
  \<open>realpathSync\<close> and \<open>readdirSync\<close> throw (\<open>None\<close>) or return.
  \<open>manifestVersion p\<close> stands for
  \<^verbatim>\<open>JSON.parse(fs.readFileSync(p, 'utf8')).version\<close>: \<open>None\<close> when the read, the
  parse or the property access throws, and the value of the property otherwise.
\<close>

record filesystem =
  existsSync :: "path \<Rightarrow> bool"
  realpathSync :: "path \<Rightarrow> path option"
  readdirSync :: "path \<Rightarrow> dirent list option"
  manifestVersion :: "path \<Rightarrow> js_value option"

section \<open>Tree walker (index.cjs)\<close>

record found_instance =
  i_path :: path
  i_version :: js_version
  i_depth :: nat
  i_type :: string

text \<open>
  \<open>visitedPaths\<close> is the \<^verbatim>\<open>Set\<close> handed down through the recursion.
  \<open>readdirCalls\<close> is not a variable of the program: it records, in call order,
  every directory handed to \<^verbatim>\<open>fs.readdirSync\<close>, so that what a walk enumerates can
  be stated.  Each call is tagged with the place it is made from: the root of a
  \<^verbatim>\<open>findPackageRecursively\<close> call, a scope directory, or the \<^verbatim>\<open>.pnpm\<close> store.
\<close>

datatype read_site = Root | ScopeDirectory | PnpmStore

record walk_state =
  visitedPaths :: "path set"
  readdirCalls :: "(read_site \<times> path) list"

definition readdir ::
  "filesystem \<Rightarrow> read_site \<Rightarrow> path \<Rightarrow> walk_state \<Rightarrow> dirent list option \<times> walk_state" where
  "readdir fs site p st = (readdirSync fs p, st\<lparr>readdirCalls := readdirCalls st @ [(site, p)]\<rparr>)"

text \<open>\<^verbatim>\<open>pkgJson.version || 'unknown'\<close>\<close>

fun version_or_unknown :: "js_value \<Rightarrow> js_version" where
  "version_or_unknown JFalsy = VString ''unknown''"
| "version_or_unknown (JString s) = (if s = [] then VString ''unknown'' else VString s)"
| "version_or_unknown JOther = VOther"

text \<open>
  The block that reads the declared version, written three times in the source:
  \<^verbatim>\<open>let version = 'unknown'; try { if (fs.existsSync(pkgJsonPath)) {...} } catch {}\<close>.
\<close>

definition readVersion :: "filesystem \<Rightarrow> path \<Rightarrow> js_version" where
  "readVersion fs packagePath =
     (let pkgJsonPath = path_join packagePath ''package.json'' in
      if existsSync fs pkgJsonPath then
        (case manifestVersion fs pkgJsonPath of
           None \<Rightarrow> VString ''unknown''
         | Some v \<Rightarrow> version_or_unknown v)
      else VString ''unknown'')"

definition installed :: "path \<Rightarrow> js_version \<Rightarrow> nat \<Rightarrow> found_instance" where
  "installed p v d = \<lparr>i_path = p, i_version = v, i_depth = d, i_type = ''installed''\<rparr>"

text \<open>\<^verbatim>\<open>targetPackage.replace('/', '+') + '@'\<close>: a string pattern replaces its first
  occurrence only.\<close>

fun replace_slash :: "string \<Rightarrow> string" where
  "replace_slash [] = []"
| "replace_slash (c # cs) = (if c = CHR ''/'' then CHR ''+'' # cs else c # replace_slash cs)"

definition searchPattern :: "string \<Rightarrow> string" where
  "searchPattern targetPackage = replace_slash targetPackage @ ''@''"

text \<open>\<^verbatim>\<open>path.join(pnpmPath, entry.name, 'node_modules', targetPackage)\<close>\<close>

definition packageInNodeModules :: "path \<Rightarrow> string \<Rightarrow> string \<Rightarrow> path" where
  "packageInNodeModules pnpmPath entryName targetPackage =
     path_join (path_join (path_join pnpmPath entryName) ''node_modules'') targetPackage"

text \<open>The loop of \<^verbatim>\<open>findInPnpmDirectory\<close> over the entries of \<^verbatim>\<open>.pnpm\<close>.\<close>

fun for_pnpm_entries ::
  "filesystem \<Rightarrow> path \<Rightarrow> string \<Rightarrow> nat \<Rightarrow> dirent list \<Rightarrow> found_instance list \<Rightarrow> found_instance list"
where
  "for_pnpm_entries fs pnpmPath targetPackage depth [] results = results"
| "for_pnpm_entries fs pnpmPath targetPackage depth (entry # rest) results =
     (if \<not> d_isDirectory entry \<and> \<not> d_isSymbolicLink entry
      then for_pnpm_entries fs pnpmPath targetPackage depth rest results
      else if prefix (searchPattern targetPackage) (d_name entry)
      then
        let found = packageInNodeModules pnpmPath (d_name entry) targetPackage
        in if existsSync fs found
           then for_pnpm_entries fs pnpmPath targetPackage depth rest
                  (results @ [installed found (readVersion fs found) depth])
           else for_pnpm_entries fs pnpmPath targetPackage depth rest results
      else for_pnpm_entries fs pnpmPath targetPackage depth rest results)"

text \<open>A failing \<^verbatim>\<open>readdirSync\<close> is caught by the function's own \<^verbatim>\<open>try\<close>: the result
  is the empty array.\<close>

definition findInPnpmDirectory ::
  "filesystem \<Rightarrow> path \<Rightarrow> string \<Rightarrow> nat \<Rightarrow> walk_state \<Rightarrow> found_instance list \<times> walk_state"
where
  "findInPnpmDirectory fs pnpmPath targetPackage depth st =
     (case readdir fs PnpmStore pnpmPath st of
        (None, st') \<Rightarrow> ([], st')
      | (Some entries, st') \<Rightarrow> (for_pnpm_entries fs pnpmPath targetPackage depth entries [], st'))"

text \<open>
  The two loops of \<^verbatim>\<open>findPackageRecursively\<close>, each as its body and the iteration
  over the entries.  \<open>rec\<close> is the recursive call
  \<^verbatim>\<open>findPackageRecursively(nested, targetPackage, depth + 1, maxDepth, visitedPaths)\<close>;
  the pair that is threaded through holds \<^verbatim>\<open>results\<close> and the state.
\<close>

type_synonym walk = "path \<Rightarrow> walk_state \<Rightarrow> found_instance list \<times> walk_state"

text \<open>Lines 259-291: one child of a scope directory.\<close>

fun scopedEntry_body ::
  "walk \<Rightarrow> filesystem \<Rightarrow> path \<Rightarrow> string \<Rightarrow> string \<Rightarrow> nat \<Rightarrow> dirent \<Rightarrow>
   found_instance list \<times> walk_state \<Rightarrow> found_instance list \<times> walk_state"
where
  "scopedEntry_body rec fs entryPath scope targetPackage depth scopedEntry (results, st) =
     (if \<not> d_isDirectory scopedEntry \<and> \<not> d_isSymbolicLink scopedEntry
      then (results, st)
      else
        let fullPackageName = scope @ ''/'' @ d_name scopedEntry;
            packagePath = path_join entryPath (d_name scopedEntry);
            results1 = (if fullPackageName = targetPackage
                        then results @ [installed packagePath (readVersion fs packagePath) depth]
                        else results);
            nestedNodeModules = path_join packagePath ''node_modules''
        in if existsSync fs nestedNodeModules
           then (case rec nestedNodeModules st of (nested, st') \<Rightarrow> (results1 @ nested, st'))
           else (results1, st))"

fun for_scopedEntries ::
  "walk \<Rightarrow> filesystem \<Rightarrow> path \<Rightarrow> string \<Rightarrow> string \<Rightarrow> nat \<Rightarrow> dirent list \<Rightarrow>
   found_instance list \<times> walk_state \<Rightarrow> found_instance list \<times> walk_state"
where
  "for_scopedEntries rec fs entryPath scope targetPackage depth [] acc = acc"
| "for_scopedEntries rec fs entryPath scope targetPackage depth (scopedEntry # rest) acc =
     for_scopedEntries rec fs entryPath scope targetPackage depth rest
       (scopedEntry_body rec fs entryPath scope targetPackage depth scopedEntry acc)"

text \<open>Lines 239-326: one entry of a \<^verbatim>\<open>node_modules\<close> directory.  A failing
  \<^verbatim>\<open>readdirSync\<close> of a scope directory is caught at line 293 and the entry is left.\<close>

fun entry_body ::
  "walk \<Rightarrow> filesystem \<Rightarrow> path \<Rightarrow> string \<Rightarrow> nat \<Rightarrow> dirent \<Rightarrow>
   found_instance list \<times> walk_state \<Rightarrow> found_instance list \<times> walk_state"
where
  "entry_body rec fs nodeModulesPath targetPackage depth entry (results, st) =
     (if \<not> d_isDirectory entry \<and> \<not> d_isSymbolicLink entry
      then (results, st)
      else
        let entryPath = path_join nodeModulesPath (d_name entry) in
        if d_name entry = ''.pnpm''
        then (case findInPnpmDirectory fs entryPath targetPackage (depth + 1) st of
                (pnpmResults, st') \<Rightarrow> (results @ pnpmResults, st'))
        else if prefix ''@'' (d_name entry)
        then (case readdir fs ScopeDirectory entryPath st of
                (None, st') \<Rightarrow> (results, st')
              | (Some scopedEntries, st') \<Rightarrow>
                  for_scopedEntries rec fs entryPath (d_name entry) targetPackage depth
                    scopedEntries (results, st'))
        else
          let results1 = (if d_name entry = targetPackage
                          then results @ [installed entryPath (readVersion fs entryPath) depth]
                          else results);
              nestedNodeModules = path_join entryPath ''node_modules''
          in if existsSync fs nestedNodeModules
             then (case rec nestedNodeModules st of (nested, st') \<Rightarrow> (results1 @ nested, st'))
             else (results1, st))"

fun for_entries ::
  "walk \<Rightarrow> filesystem \<Rightarrow> path \<Rightarrow> string \<Rightarrow> nat \<Rightarrow> dirent list \<Rightarrow>
   found_instance list \<times> walk_state \<Rightarrow> found_instance list \<times> walk_state"
where
  "for_entries rec fs nodeModulesPath targetPackage depth [] acc = acc"
| "for_entries rec fs nodeModulesPath targetPackage depth (entry # rest) acc =
     for_entries rec fs nodeModulesPath targetPackage depth rest
       (entry_body rec fs nodeModulesPath targetPackage depth entry acc)"

text \<open>
  The cycle check: \<open>None\<close> is the early \<^verbatim>\<open>return results\<close>; when
  \<^verbatim>\<open>realpathSync\<close> throws the \<^verbatim>\<open>catch\<close> is empty and the walk goes on with the set
  unchanged.
\<close>

definition cycleCheck :: "filesystem \<Rightarrow> path \<Rightarrow> walk_state \<Rightarrow> walk_state option" where
  "cycleCheck fs nodeModulesPath st =
     (case realpathSync fs nodeModulesPath of
        None \<Rightarrow> Some st
      | Some realPath \<Rightarrow>
          if realPath \<in> visitedPaths st then None
          else Some (st\<lparr>visitedPaths := insert realPath (visitedPaths st)\<rparr>))"

function findPackageRecursively ::
  "filesystem \<Rightarrow> path \<Rightarrow> string \<Rightarrow> nat \<Rightarrow> nat \<Rightarrow> walk_state \<Rightarrow> found_instance list \<times> walk_state"
where
  "findPackageRecursively fs nodeModulesPath targetPackage depth maxDepth st =
     (if depth > maxDepth \<or> \<not> existsSync fs nodeModulesPath then ([], st)
      else
        case cycleCheck fs nodeModulesPath st of
          None \<Rightarrow> ([], st)
        | Some st1 \<Rightarrow>
            (case readdir fs Root nodeModulesPath st1 of
               (None, st2) \<Rightarrow> ([], st2)
             | (Some entries, st2) \<Rightarrow>
                 for_entries
                   (\<lambda>nested s. findPackageRecursively fs nested targetPackage (depth + 1) maxDepth s)
                   fs nodeModulesPath targetPackage depth entries ([], st2)))"
  by pat_completeness auto
termination
  by (relation "measure (\<lambda>(fs, p, t, depth, maxDepth, st). maxDepth + 1 - depth)") auto

declare findPackageRecursively.simps [simp del]

text \<open>The defaults of the signature: \<^verbatim>\<open>depth = 0, maxDepth = 5, visitedPaths = new Set()\<close>.\<close>

definition new_walk :: walk_state where
  "new_walk = \<lparr>visitedPaths = {}, readdirCalls = []\<rparr>"

definition findInstances :: "filesystem \<Rightarrow> path \<Rightarrow> string \<Rightarrow> found_instance list" where
  "findInstances fs nodeModulesPath targetPackage =
     fst (findPackageRecursively fs nodeModulesPath targetPackage 0 5 new_walk)"

subsection \<open>What a walk enumerates\<close>

text \<open>
  The resolved real paths of the directories a log records as read from the root of a
  \<^verbatim>\<open>findPackageRecursively\<close> call, in call order; a root whose \<^verbatim>\<open>realpathSync\<close>
  throws has no resolved path.  \<open>roots_once fs st st'\<close> relates the state before a
  stretch of the walk to the state after it: the calls logged in between read no
  resolved root twice and none that was in the set before, and the set has grown by
  exactly these roots.
\<close>

fun resolved_roots :: "filesystem \<Rightarrow> (read_site \<times> path) list \<Rightarrow> path list" where
  "resolved_roots fs [] = []"
| "resolved_roots fs ((site, q) # rest) =
     (if site = Root
      then (case realpathSync fs q of
              None \<Rightarrow> resolved_roots fs rest
            | Some realPath \<Rightarrow> realPath # resolved_roots fs rest)
      else resolved_roots fs rest)"

definition roots_once :: "filesystem \<Rightarrow> walk_state \<Rightarrow> walk_state \<Rightarrow> bool" where
  "roots_once fs st st' \<longleftrightarrow>
     (\<exists>new. readdirCalls st' = readdirCalls st @ new \<and>
            distinct (resolved_roots fs new) \<and>
            set (resolved_roots fs new) \<inter> visitedPaths st = {} \<and>
            visitedPaths st' = visitedPaths st \<union> set (resolved_roots fs new))"

subsection \<open>Listings and the paths of the hits\<close>

text \<open>
  What every file system guarantees of a directory listing: the names are pairwise
  different, and none is empty, \<^verbatim>\<open>.\<close>, \<^verbatim>\<open>..\<close> or contains a \<^verbatim>\<open>/\<close>.
  \<open>hits_under p names res\<close> says that the instances \<open>res\<close> have pairwise different
  paths, each below an entry of \<open>p\<close> whose name is in \<open>names\<close>.
\<close>

definition entry_name_ok :: "string \<Rightarrow> bool" where
  "entry_name_ok n \<longleftrightarrow> n \<noteq> [] \<and> n \<noteq> ''.'' \<and> n \<noteq> ''..'' \<and> CHR ''/'' \<notin> set n"


definition hits_under :: "path \<Rightarrow> string set \<Rightarrow> found_instance list \<Rightarrow> bool" where
  "hits_under p names res \<longleftrightarrow>
     distinct (map i_path res) \<and> (\<forall>i \<in> set res. \<exists>n \<in> names. prefix (p @ [n]) (i_path i))"

section \<open>Report (index.cjs)\<close>

datatype finding_type = Installed | DependencyReference

record finding =
  f_package :: string
  f_version :: js_version
  f_path :: path
  f_depth :: nat
  f_type :: finding_type
  f_compromisedVersions :: "string list option"

text \<open>The object pushed to \<^verbatim>\<open>results.foundInNodeModules\<close> at lines 501-508.\<close>

definition installedFinding :: "package_map \<Rightarrow> string \<Rightarrow> found_instance \<Rightarrow> finding" where
  "installedFinding m pkg inst =
     \<lparr>f_package = pkg, f_version = i_version inst, f_path = i_path inst,
      f_depth = i_depth inst, f_type = Installed, f_compromisedVersions = map_of m pkg\<rparr>"

text \<open>The inner \<^verbatim>\<open>forEach\<close> of lines 489-520: an instance whose version is not
  compromised is skipped; a \<^verbatim>\<open>TypeError\<close> of \<^verbatim>\<open>isCompromised\<close> is not caught.\<close>

fun report_instances ::
  "package_map \<Rightarrow> string \<Rightarrow> found_instance list \<Rightarrow> finding list \<Rightarrow> js_error + finding list"
where
  "report_instances m pkg [] found = Inr found"
| "report_instances m pkg (inst # rest) found =
     (case isCompromised m pkg (i_version inst) of
        Inl e \<Rightarrow> Inl e
      | Inr False \<Rightarrow> report_instances m pkg rest found
      | Inr True \<Rightarrow>
          report_instances m pkg rest (found @ [installedFinding m pkg inst]))"

text \<open>The outer \<^verbatim>\<open>forEach\<close> over \<^verbatim>\<open>Array.from(COMPROMISED_PACKAGES_MAP.keys())\<close>: one
  search per blacklisted name, each with a set of its own.\<close>

fun scan_installed ::
  "package_map \<Rightarrow> filesystem \<Rightarrow> path \<Rightarrow> string list \<Rightarrow> finding list \<Rightarrow> js_error + finding list"
where
  "scan_installed m fs nodeModules [] found = Inr found"
| "scan_installed m fs nodeModules (pkg # pkgs) found =
     (let foundInstances = findInstances fs nodeModules pkg in
      case (if length foundInstances > 0 then report_instances m pkg foundInstances found
            else Inr found) of
        Inl e \<Rightarrow> Inl e
      | Inr found' \<Rightarrow> scan_installed m fs nodeModules pkgs found')"

definition installedFindings ::
  "package_map \<Rightarrow> filesystem \<Rightarrow> path \<Rightarrow> js_error + finding list" where
  "installedFindings m fs targetDir =
     (let nodeModules = path_join targetDir ''node_modules'' in
      if existsSync fs nodeModules then scan_installed m fs nodeModules (map fst m) []
      else Inr [])"

text \<open>
  The summary.  \<^verbatim>\<open>foundInNodeModules\<close> holds the findings of type
  \<^verbatim>\<open>installed\<close> and \<^verbatim>\<open>dependency-reference\<close>, \<^verbatim>\<open>foundInPackageJson\<close> the names
  declared in the project's own manifest.  The earlier version of index.cjs also reads
  \<^verbatim>\<open>package-lock.json\<close> into \<^verbatim>\<open>foundInPackageLock\<close>.
\<close>

datatype level = LevelNone | Medium | High | Critical

record declared_finding =
  p_package :: string
  p_version :: js_value
  p_type :: string

record lock_finding =
  l_package :: string
  l_version :: js_value

record scan_results =
  foundInNodeModules :: "finding list"
  foundInPackageJson :: "declared_finding list"

record scan_results_legacy = scan_results +
  foundInPackageLock :: "lock_finding list"

text \<open>Lines 632-637; the field starts as \<^verbatim>\<open>'none'\<close>.\<close>

definition criticalLevel :: "scan_results \<Rightarrow> level" where
  "criticalLevel results =
     (if length (foundInNodeModules results) > 0 then Critical
      else if length (foundInPackageJson results) > 0 then High
      else LevelNone)"

text \<open>Lines 553-560 of the earlier version.\<close>

definition criticalLevel_legacy :: "scan_results_legacy \<Rightarrow> level" where
  "criticalLevel_legacy results =
     (if length (foundInNodeModules results) > 0 then Critical
      else if length (foundInPackageJson results) > 0 then High
      else if length (foundInPackageLock results) > 0 then Medium
      else LevelNone)"

section \<open>Example trees\<close>

text \<open>Directory entries are written with \<open>directory\<close>, \<open>symlink\<close> and \<open>plain_file\<close>.\<close>

definition directory :: "string \<Rightarrow> dirent" where
  "directory n = \<lparr>d_name = n, d_isDirectory = True, d_isSymbolicLink = False\<rparr>"

definition symlink :: "string \<Rightarrow> dirent" where
  "symlink n = \<lparr>d_name = n, d_isDirectory = False, d_isSymbolicLink = True\<rparr>"

definition plain_file :: "string \<Rightarrow> dirent" where
  "plain_file n = \<lparr>d_name = n, d_isDirectory = False, d_isSymbolicLink = False\<rparr>"


text \<open>
  An npm project: \<^verbatim>\<open>/proj/node_modules/evil-pkg\<close> is installed, but its
  \<^verbatim>\<open>package.json\<close> is missing.
\<close>

definition bare_fs :: filesystem where
  "bare_fs =
     \<lparr>existsSync = (\<lambda>p. p \<in> set
        [[''proj''],
         [''proj'', ''node_modules''],
         [''proj'', ''node_modules'', ''evil-pkg''],
         [''proj'', ''node_modules'', ''evil-pkg'', ''index.js'']]),
      realpathSync = Some,
      readdirSync = map_of
        [([''proj''], [directory ''node_modules'']),
         ([''proj'', ''node_modules''], [directory ''evil-pkg'']),
         ([''proj'', ''node_modules'', ''evil-pkg''], [plain_file ''index.js''])],
      manifestVersion = (\<lambda>p. None)\<rparr>"


text \<open>
  A deep npm tree: \<^verbatim>\<open>/proj/node_modules/a/node_modules/a/...\<close>, where \<open>chain k\<close> is
  the \<^verbatim>\<open>node_modules\<close> directory reached after \<open>k\<close> nested packages \<^verbatim>\<open>a\<close>.  The
  directory at depth 5 also holds a store \<^verbatim>\<open>.pnpm\<close> with \<^verbatim>\<open>evil-pkg@1.0.0\<close>, and the
  one at depth 6 holds the package \<^verbatim>\<open>deep-pkg\<close>.
\<close>

definition chain :: "nat \<Rightarrow> path" where
  "chain k = [''proj'', ''node_modules''] @ concat (replicate k [''a'', ''node_modules''])"

definition deep_fs :: filesystem where
  "deep_fs =
     \<lparr>existsSync = (\<lambda>p. p \<in> set (map chain [0..<7]) \<or>
        p = chain 5 @ [''.pnpm'', ''evil-pkg@1.0.0'', ''node_modules'', ''evil-pkg''] \<or>
        p = chain 5 @ [''.pnpm'', ''evil-pkg@1.0.0'', ''node_modules'', ''evil-pkg'', ''package.json''] \<or>
        p = chain 6 @ [''deep-pkg'']),
      realpathSync = Some,
      readdirSync = (\<lambda>p.
        if p \<in> set (map chain [0..<5]) then Some [directory ''a'']
        else if p = chain 5 then Some [directory ''.pnpm'', directory ''a'']
        else if p = chain 5 @ [''.pnpm''] then Some [directory ''evil-pkg@1.0.0'']
        else if p = chain 6 then Some [directory ''deep-pkg'']
        else None),
      manifestVersion = (\<lambda>p.
        if p = chain 5 @ [''.pnpm'', ''evil-pkg@1.0.0'', ''node_modules'', ''evil-pkg'', ''package.json'']
        then Some (JString ''1.0.0'') else None)\<rparr>"

text \<open>
  Trees with symbolic links, given by the listing of every real directory and by the
  target of every link.  A path is resolved segment by segment from the root; it exists
  when it resolves, and a directory is read through its real path.  No manifest can be
  read in these trees.
\<close>

definition real_exists :: "(path \<times> dirent list) list \<Rightarrow> path \<Rightarrow> bool" where
  "real_exists dirs q =
     (q = [] \<or>
      (case map_of dirs (butlast q) of
         None \<Rightarrow> False
       | Some entries \<Rightarrow> last q \<in> set (map d_name entries)))"

definition resolve_step ::
  "(path \<times> dirent list) list \<Rightarrow> (path \<times> path) list \<Rightarrow> path option \<Rightarrow> string \<Rightarrow> path option" where
  "resolve_step dirs links r s =
     (case r of
        None \<Rightarrow> None
      | Some real \<Rightarrow>
          (case map_of links (real @ [s]) of
             Some target \<Rightarrow> Some target
           | None \<Rightarrow> if real_exists dirs (real @ [s]) then Some (real @ [s]) else None))"

definition resolve :: "(path \<times> dirent list) list \<Rightarrow> (path \<times> path) list \<Rightarrow> path \<Rightarrow> path option" where
  "resolve dirs links p = foldl (resolve_step dirs links) (Some []) p"

definition linked_fs :: "(path \<times> dirent list) list \<Rightarrow> (path \<times> path) list \<Rightarrow> filesystem" where
  "linked_fs dirs links =
     \<lparr>existsSync = (\<lambda>p. resolve dirs links p \<noteq> None),
      realpathSync = resolve dirs links,
      readdirSync = (\<lambda>p. case resolve dirs links p of None \<Rightarrow> None | Some real \<Rightarrow> map_of dirs real),
      manifestVersion = (\<lambda>p. None)\<rparr>"

text \<open>The scope directory \<^verbatim>\<open>@s\<close> and a link \<^verbatim>\<open>@t\<close> to it, side by side.\<close>

definition alias_fs :: filesystem where
  "alias_fs = linked_fs
     [([], [directory ''proj'']),
      ([''proj''], [directory ''node_modules'']),
      ([''proj'', ''node_modules''], [directory ''@s'', symlink ''@t'']),
      ([''proj'', ''node_modules'', ''@s''], [directory ''c'']),
      ([''proj'', ''node_modules'', ''@s'', ''c''], [plain_file ''index.js''])]
     [([''proj'', ''node_modules'', ''@t''], [''proj'', ''node_modules'', ''@s''])]"

text \<open>
  A ring: \<^verbatim>\<open>a/node_modules/b\<close> is a link to the package \<^verbatim>\<open>b\<close> and
  \<^verbatim>\<open>b/node_modules/a\<close> a link to the package \<^verbatim>\<open>a\<close>, so that
  \<^verbatim>\<open>a/node_modules/b/node_modules/a/node_modules/...\<close> exists at every length.
\<close>

definition ring_fs :: filesystem where
  "ring_fs = linked_fs
     [([], [directory ''proj'']),
      ([''proj''], [directory ''node_modules'']),
      ([''proj'', ''node_modules''], [directory ''a'', directory ''b'']),
      ([''proj'', ''node_modules'', ''a''], [directory ''node_modules'']),
      ([''proj'', ''node_modules'', ''a'', ''node_modules''], [symlink ''b'']),
      ([''proj'', ''node_modules'', ''b''], [directory ''node_modules'']),
      ([''proj'', ''node_modules'', ''b'', ''node_modules''], [symlink ''a''])]
     [([''proj'', ''node_modules'', ''a'', ''node_modules'', ''b''], [''proj'', ''node_modules'', ''b'']),
      ([''proj'', ''node_modules'', ''b'', ''node_modules'', ''a''], [''proj'', ''node_modules'', ''a''])]"


section \<open>Properties of the matcher\<close>

lemma array_includes_iff: "array_includes ys x \<longleftrightarrow> x \<in> set ys"
  by (induction ys) auto

lemma normalizeVersion_twice:
  "normalizeVersion (normalizeVersion v) = normalizeVersion v \<longleftrightarrow> \<not> prefix ''vv'' v"
proof (cases v)
  case Nil
  then show ?thesis by simp
next
  case (Cons c cs)
  note v = Cons
  show ?thesis
  proof (cases cs)
    case Nil
    with v show ?thesis by simp
  next
    case (Cons d ds)
    with v show ?thesis by auto
  qed
qed

lemma isCompromised_VString:
  "isCompromised m name (VString v) =
     (case map_of m name of None \<Rightarrow> Inr False | Some vs \<Rightarrow> Inr (normalizeVersion v \<in> set vs))"
  by (simp add: isCompromised_def array_includes_iff split: option.splits)

text \<open>
  C1 (as stated in the specification): for a name recorded with an empty
  compromised-version set, \<^verbatim>\<open>isCompromised\<close> returns true for every version.
  The code does not do this: \<^verbatim>\<open>[].includes(x)\<close> is false.  A package that
  \<^verbatim>\<open>extract_packages.cjs\<close> lists without versions, installed as 1.0.0, is the
  counterexample.
\<close>

theorem C1_empty_set_counterexample:
  "isCompromised (COMPROMISED_PACKAGES_MAP [\<lparr>pkg_name = ''evil-pkg'', pkg_versions = []\<rparr>])
     ''evil-pkg'' (VString ''1.0.0'') = Inr False"
  by (simp add: COMPROMISED_PACKAGES_MAP_def isCompromised_def)

text \<open>
  C1 (amended): for every package name recorded in the blacklist index with an empty
  compromised-version set, \<^verbatim>\<open>isCompromised(name, version)\<close> returns false for every
  version string: no installed version of that package is flagged by the matcher.
\<close>

theorem C1_empty_set_never_flagged:
  "map_of m name = Some [] \<Longrightarrow> isCompromised m name (VString v) = Inr False"
  by (simp add: isCompromised_def)

theorem C1_empty_set_never_flagged_witness:
  "map_of (COMPROMISED_PACKAGES_MAP [\<lparr>pkg_name = ''evil-pkg'', pkg_versions = []\<rparr>]) ''evil-pkg''
     = Some [] \<and>
   isCompromised (COMPROMISED_PACKAGES_MAP [\<lparr>pkg_name = ''evil-pkg'', pkg_versions = []\<rparr>])
     ''evil-pkg'' (VString ''v2.3.4'') = Inr False"
proof -
  have h: "map_of (COMPROMISED_PACKAGES_MAP [\<lparr>pkg_name = ''evil-pkg'', pkg_versions = []\<rparr>])
             ''evil-pkg'' = Some []"
    by (simp add: COMPROMISED_PACKAGES_MAP_def)
  from C1_empty_set_never_flagged [OF h, of "''v2.3.4''"] h show ?thesis by simp
qed

text \<open>
  C2: \<^verbatim>\<open>isCompromised(name, version)\<close> returns false whenever the name is absent from
  the blacklist index; for a name present with a non-empty set it returns true if and
  only if the version with one leading \<^verbatim>\<open>v\<close> stripped is, as a string, a member of the
  set.  There is no range logic: a version that is not literally listed is not flagged.
\<close>

theorem C2_exact_version_match:
  "(map_of m name = None \<longrightarrow> isCompromised m name version = Inr False) \<and>
   (map_of m name = Some vs \<and> vs \<noteq> [] \<longrightarrow>
      isCompromised m name (VString v) = Inr (normalizeVersion v \<in> set vs)) \<and>
   (map_of m name = Some vs \<and> vs \<noteq> [] \<and> normalizeVersion v \<notin> set vs \<longrightarrow>
      isCompromised m name (VString v) = Inr False)"
  by (simp add: isCompromised_def array_includes_iff)

theorem C2_exact_version_match_witness:
  "map_of (COMPROMISED_PACKAGES_MAP [\<lparr>pkg_name = ''evil-pkg'', pkg_versions = [''v1.0.0'']\<rparr>])
     ''evil-pkg'' = Some [''1.0.0''] \<and>
   map_of (COMPROMISED_PACKAGES_MAP [\<lparr>pkg_name = ''evil-pkg'', pkg_versions = [''v1.0.0'']\<rparr>])
     ''left-pad'' = None \<and>
   isCompromised (COMPROMISED_PACKAGES_MAP [\<lparr>pkg_name = ''evil-pkg'', pkg_versions = [''v1.0.0'']\<rparr>])
     ''left-pad'' (VString ''1.0.0'') = Inr False \<and>
   isCompromised (COMPROMISED_PACKAGES_MAP [\<lparr>pkg_name = ''evil-pkg'', pkg_versions = [''v1.0.0'']\<rparr>])
     ''evil-pkg'' (VString ''v1.0.0'') = Inr True \<and>
   isCompromised (COMPROMISED_PACKAGES_MAP [\<lparr>pkg_name = ''evil-pkg'', pkg_versions = [''v1.0.0'']\<rparr>])
     ''evil-pkg'' (VString ''1.0.1'') = Inr False"
proof -
  let ?m = "COMPROMISED_PACKAGES_MAP [\<lparr>pkg_name = ''evil-pkg'', pkg_versions = [''v1.0.0'']\<rparr>]"
  have present: "map_of ?m ''evil-pkg'' = Some [''1.0.0'']"
    by (simp add: COMPROMISED_PACKAGES_MAP_def)
  have absent: "map_of ?m ''left-pad'' = None"
    by (simp add: COMPROMISED_PACKAGES_MAP_def)
  from C2_exact_version_match [of ?m "''left-pad''" "VString ''1.0.0''" "[''1.0.0'']" "''1.0.0''"]
       C2_exact_version_match [of ?m "''evil-pkg''" "VString ''1.0.0''" "[''1.0.0'']" "''v1.0.0''"]
       C2_exact_version_match [of ?m "''evil-pkg''" "VString ''1.0.0''" "[''1.0.0'']" "''1.0.1''"]
       present absent
  show ?thesis by simp
qed

text \<open>
  C3 (as stated in the specification): version normalisation is idempotent on every
  string.  The code removes exactly one leading \<^verbatim>\<open>v\<close>, so a string that starts with
  two of them is changed by a second application.
\<close>

theorem C3_idempotence_counterexample:
  "normalizeVersion (normalizeVersion ''vv1.2.3'') \<noteq> normalizeVersion ''vv1.2.3''"
  by simp

text \<open>
  C3 (amended): version normalisation strips one leading \<^verbatim>\<open>v\<close>; it is idempotent
  exactly on the strings that do not start with \<^verbatim>\<open>vv\<close>, and
  \<^verbatim>\<open>normalize("v1.2.3") == normalize("1.2.3")\<close>.
\<close>

theorem C3_idempotent_unless_vv:
  "(normalizeVersion (normalizeVersion v) = normalizeVersion v \<longleftrightarrow> \<not> prefix ''vv'' v) \<and>
   normalizeVersion ''v1.2.3'' = normalizeVersion ''1.2.3''"
  using normalizeVersion_twice [of v] by simp

theorem C3_idempotent_unless_vv_witness:
  "normalizeVersion (normalizeVersion ''v1.2.3'') = normalizeVersion ''v1.2.3'' \<and>
   \<not> prefix ''vv'' ''v1.2.3''"
  using C3_idempotent_unless_vv [of "''v1.2.3''"] by simp

section \<open>Risk level\<close>

lemma findings_typed:
  "(\<exists>f \<in> set fs. f_type f = Installed \<or> f_type f = DependencyReference) \<longleftrightarrow> length fs > 0"
proof (cases fs)
  case Nil
  then show ?thesis by simp
next
  case (Cons f rest)
  then show ?thesis by (cases "f_type f") auto
qed

text \<open>
  C7: the risk level is computed by strict precedence over the collected findings: any
  installed-instance or dependency-reference finding gives Critical; otherwise any
  manifest declaration gives High; otherwise, in the earlier version that reads the
  lockfile, a lockfile finding gives Medium; otherwise the level is None.
\<close>

theorem C7_risk_level_precedence:
  "criticalLevel r =
     (if \<exists>f \<in> set (foundInNodeModules r). f_type f = Installed \<or> f_type f = DependencyReference
      then Critical
      else if foundInPackageJson r \<noteq> [] then High
      else LevelNone) \<and>
   criticalLevel_legacy l =
     (if \<exists>f \<in> set (foundInNodeModules l). f_type f = Installed \<or> f_type f = DependencyReference
      then Critical
      else if foundInPackageJson l \<noteq> [] then High
      else if foundInPackageLock l \<noteq> [] then Medium
      else LevelNone)"
  unfolding criticalLevel_def criticalLevel_legacy_def findings_typed
  by simp

theorem C7_risk_level_precedence_witness:
  "criticalLevel
     \<lparr>foundInNodeModules =
        [\<lparr>f_package = ''evil-pkg'', f_version = VString ''1.0.0'',
          f_path = [''proj'', ''node_modules'', ''evil-pkg''], f_depth = 0, f_type = Installed,
          f_compromisedVersions = Some [''1.0.0'']\<rparr>],
      foundInPackageJson =
        [\<lparr>p_package = ''evil-pkg'', p_version = JString ''^1.0.0'', p_type = ''dependencies''\<rparr>]\<rparr>
     = Critical \<and>
   criticalLevel
     \<lparr>foundInNodeModules = [],
      foundInPackageJson =
        [\<lparr>p_package = ''evil-pkg'', p_version = JString ''^1.0.0'', p_type = ''dependencies''\<rparr>]\<rparr>
     = High \<and>
   criticalLevel \<lparr>foundInNodeModules = [], foundInPackageJson = []\<rparr> = LevelNone \<and>
   criticalLevel_legacy
     \<lparr>foundInNodeModules = [], foundInPackageJson = [],
      foundInPackageLock = [\<lparr>l_package = ''evil-pkg'', l_version = JString ''1.0.0''\<rparr>]\<rparr>
     = Medium"
proof -
  let ?f = "\<lparr>f_package = ''evil-pkg'', f_version = VString ''1.0.0'',
          f_path = [''proj'', ''node_modules'', ''evil-pkg''], f_depth = 0, f_type = Installed,
          f_compromisedVersions = Some [''1.0.0'']\<rparr>"
  let ?d = "\<lparr>p_package = ''evil-pkg'', p_version = JString ''^1.0.0'', p_type = ''dependencies''\<rparr>"
  let ?k = "\<lparr>l_package = ''evil-pkg'', l_version = JString ''1.0.0''\<rparr>"
  let ?l = "\<lparr>foundInNodeModules = [], foundInPackageJson = [], foundInPackageLock = [?k]\<rparr>"
  from C7_risk_level_precedence [of "\<lparr>foundInNodeModules = [?f], foundInPackageJson = [?d]\<rparr>" ?l]
       C7_risk_level_precedence [of "\<lparr>foundInNodeModules = [], foundInPackageJson = [?d]\<rparr>" ?l]
       C7_risk_level_precedence [of "\<lparr>foundInNodeModules = [], foundInPackageJson = []\<rparr>" ?l]
  show ?thesis by simp
qed

section \<open>The content store\<close>

lemma for_pnpm_entries_eq:
  "for_pnpm_entries fs pnpmPath target depth entries results =
     results @
     map (\<lambda>e. installed (packageInNodeModules pnpmPath (d_name e) target)
                 (readVersion fs (packageInNodeModules pnpmPath (d_name e) target)) depth)
       (filter (\<lambda>e. (d_isDirectory e \<or> d_isSymbolicLink e) \<and>
                     prefix (replace_slash target @ ''@'') (d_name e) \<and>
                     existsSync fs (packageInNodeModules pnpmPath (d_name e) target))
          entries)"
  by (induction entries arbitrary: results) (auto simp: searchPattern_def Let_def)



section \<open>Installed findings\<close>

lemma report_instances_Inr:
  "report_instances m pkg insts found = Inr found' \<Longrightarrow>
   found' = found @ map (installedFinding m pkg)
                      (filter (\<lambda>i. isCompromised m pkg (i_version i) = Inr True) insts)"
proof (induction insts arbitrary: found)
  case Nil
  then show ?case by simp
next
  case (Cons inst rest)
  show ?case
  proof (cases "isCompromised m pkg (i_version inst)")
    case (Inl e)
    with Cons.prems show ?thesis by simp
  next
    case (Inr b)
    show ?thesis
    proof (cases b)
      case True
      with Inr Cons.prems
      have "report_instances m pkg rest (found @ [installedFinding m pkg inst]) = Inr found'"
        by simp
      from Cons.IH [OF this] Inr True show ?thesis by simp
    next
      case False
      with Inr Cons.prems have "report_instances m pkg rest found = Inr found'"
        by simp
      from Cons.IH [OF this] Inr False show ?thesis by simp
    qed
  qed
qed

lemma scan_installed_Inr:
  "scan_installed m fs nm pkgs found = Inr found' \<Longrightarrow>
   found' = found @ concat (map (\<lambda>pkg. map (installedFinding m pkg)
                      (filter (\<lambda>i. isCompromised m pkg (i_version i) = Inr True)
                         (findInstances fs nm pkg))) pkgs)"
proof (induction pkgs arbitrary: found)
  case Nil
  then show ?case by simp
next
  case (Cons pkg pkgs)
  let ?insts = "findInstances fs nm pkg"
  let ?step = "if length ?insts > 0 then report_instances m pkg ?insts found else Inr found"
  from Cons.prems obtain mid where mid: "?step = Inr mid"
    and rest: "scan_installed m fs nm pkgs mid = Inr found'"
    by (auto simp: Let_def split: sum.splits)
  have "mid = found @ map (installedFinding m pkg)
                      (filter (\<lambda>i. isCompromised m pkg (i_version i) = Inr True) ?insts)"
  proof (cases "length ?insts > 0")
    case True
    with mid show ?thesis by (simp add: report_instances_Inr)
  next
    case False
    with mid show ?thesis by simp
  qed
  with Cons.IH [OF rest] show ?case by simp
qed

lemma installedFindings_member:
  assumes "installedFindings m fs targetDir = Inr found" and "f \<in> set found"
  shows "\<exists>pkg inst. pkg \<in> fst ` set m \<and>
           inst \<in> set (findInstances fs (path_join targetDir ''node_modules'') pkg) \<and>
           isCompromised m pkg (i_version inst) = Inr True \<and> f = installedFinding m pkg inst"
proof (cases "existsSync fs (path_join targetDir ''node_modules'')")
  case False
  with assms show ?thesis by (simp add: installedFindings_def)
next
  case True
  with assms(1) have "scan_installed m fs (path_join targetDir ''node_modules'') (map fst m) [] = Inr found"
    by (simp add: installedFindings_def)
  from scan_installed_Inr [OF this] assms(2) show ?thesis by auto
qed

text \<open>
  C10 (as stated in the specification): for an entry whose version set is not empty, an
  installed copy whose manifest is missing or unparsable, recorded with version
  \<^verbatim>\<open>unknown\<close>, is never reported.  The string is matched like any other, so an
  entry that lists \<^verbatim>\<open>unknown\<close> reports it.
\<close>

theorem C10_unknown_counterexample:
  "installedFindings
     (COMPROMISED_PACKAGES_MAP [\<lparr>pkg_name = ''evil-pkg'', pkg_versions = [''unknown'']\<rparr>])
     bare_fs [''proj''] =
   Inr [\<lparr>f_package = ''evil-pkg'', f_version = VString ''unknown'',
         f_path = [''proj'', ''node_modules'', ''evil-pkg''], f_depth = 0, f_type = Installed,
         f_compromisedVersions = Some [''unknown'']\<rparr>]"
  by code_simp

text \<open>
  C10 (amended): an installed copy recorded with version \<^verbatim>\<open>unknown\<close> is matched
  against the entry's version set like any other version: it is reported as an installed
  finding exactly when the set contains the literal string \<^verbatim>\<open>unknown\<close>, so for an
  entry that lists only real versions it is never reported; every installed finding of a
  run whose version is \<^verbatim>\<open>unknown\<close> belongs to an entry that lists that string.
\<close>

theorem C10_unknown_matched_literally:
  "(map_of m pkg = Some vs \<and> i_version inst = VString ''unknown'' \<longrightarrow>
      report_instances m pkg [inst] found =
        Inr (if ''unknown'' \<in> set vs then found @ [installedFinding m pkg inst] else found)) \<and>
   (installedFindings m fs targetDir = Inr found \<and> f \<in> set found \<and>
    f_version f = VString ''unknown'' \<longrightarrow>
      (\<exists>vs. map_of m (f_package f) = Some vs \<and> ''unknown'' \<in> set vs))"
proof (intro conjI impI)
  assume "map_of m pkg = Some vs \<and> i_version inst = VString ''unknown''"
  then show "report_instances m pkg [inst] found =
        Inr (if ''unknown'' \<in> set vs then found @ [installedFinding m pkg inst] else found)"
    by (simp add: isCompromised_VString)
next
  assume a: "installedFindings m fs targetDir = Inr found \<and> f \<in> set found \<and>
    f_version f = VString ''unknown''"
  then obtain pkg inst where ok: "isCompromised m pkg (i_version inst) = Inr True"
    and f: "f = installedFinding m pkg inst"
    using installedFindings_member [of m fs targetDir found f] by blast
  from a f have "i_version inst = VString ''unknown''" "f_package f = pkg"
    by (simp_all add: installedFinding_def)
  with ok show "\<exists>vs. map_of m (f_package f) = Some vs \<and> ''unknown'' \<in> set vs"
    by (auto simp: isCompromised_VString split: option.splits)
qed


theorem C10_unknown_matched_literally_witness:
  "map_of (COMPROMISED_PACKAGES_MAP [\<lparr>pkg_name = ''evil-pkg'', pkg_versions = [''v1.0.0'']\<rparr>])
     ''evil-pkg'' = Some [''1.0.0''] \<and>
   i_version (installed [''proj'', ''node_modules'', ''evil-pkg''] (VString ''unknown'') 0)
     = VString ''unknown'' \<and>
   report_instances (COMPROMISED_PACKAGES_MAP [\<lparr>pkg_name = ''evil-pkg'', pkg_versions = [''v1.0.0'']\<rparr>])
     ''evil-pkg'' [installed [''proj'', ''node_modules'', ''evil-pkg''] (VString ''unknown'') 0] []
     = Inr [] \<and>
   installedFindings
     (COMPROMISED_PACKAGES_MAP [\<lparr>pkg_name = ''evil-pkg'', pkg_versions = [''v1.0.0'']\<rparr>])
     bare_fs [''proj''] = Inr []"
proof -
  let ?m = "COMPROMISED_PACKAGES_MAP [\<lparr>pkg_name = ''evil-pkg'', pkg_versions = [''v1.0.0'']\<rparr>]"
  let ?inst = "installed [''proj'', ''node_modules'', ''evil-pkg''] (VString ''unknown'') 0"
  have entry: "map_of ?m ''evil-pkg'' = Some [''1.0.0'']"
    by (simp add: COMPROMISED_PACKAGES_MAP_def)
  have version: "i_version ?inst = VString ''unknown''"
    by (simp add: installed_def)
  from C10_unknown_matched_literally [of ?m "''evil-pkg''" "[''1.0.0'']" ?inst "[]"] entry version
  have skipped: "report_instances ?m ''evil-pkg'' [?inst] [] = Inr []"
    by simp
  have run: "installedFindings ?m bare_fs [''proj''] = Inr []"
    by code_simp
  from entry version skipped run show ?thesis by blast
qed

section \<open>Failures at a single node\<close>











section \<open>The depth bound\<close>

lemma findInPnpmDirectory_results:
  assumes "i \<in> set (fst (findInPnpmDirectory fs pnpmPath t d st))"
  shows "i_depth i = d \<and> (\<exists>E. i_path i = packageInNodeModules pnpmPath E t)"
  using assms
  by (auto simp: findInPnpmDirectory_def readdir_def for_pnpm_entries_eq installed_def
      split: option.splits)

lemma scopedEntry_body_all:
  assumes rec: "\<And>q s i. i \<in> set (fst (rec q s)) \<Longrightarrow> Q i"
    and hit: "\<And>q v. Q (installed q v d)"
    and acc: "\<forall>i \<in> set results. Q i"
  shows "\<forall>i \<in> set (fst (scopedEntry_body rec fs entryPath scope t d e (results, st))). Q i"
proof -
  let ?pp = "path_join entryPath (d_name e)"
  let ?r1 = "if scope @ ''/'' @ d_name e = t
             then results @ [installed ?pp (readVersion fs ?pp) d] else results"
  have r1: "\<forall>i \<in> set ?r1. Q i" using acc hit by simp
  obtain nested st' where n: "rec (path_join ?pp ''node_modules'') st = (nested, st')"
    by (cases "rec (path_join ?pp ''node_modules'') st")
  from rec [of _ "path_join ?pp ''node_modules''" st] n have "\<forall>i \<in> set nested. Q i" by simp
  with r1 n acc show ?thesis by (auto simp: Let_def split: if_splits)
qed

lemma for_scopedEntries_all:
  assumes "\<And>q s i. i \<in> set (fst (rec q s)) \<Longrightarrow> Q i"
    and "\<And>q v. Q (installed q v d)"
  shows "\<forall>i \<in> set results. Q i \<Longrightarrow>
         \<forall>i \<in> set (fst (for_scopedEntries rec fs entryPath scope t d es (results, st))). Q i"
proof (induction es arbitrary: results st)
  case Nil
  then show ?case by simp
next
  case (Cons e es)
  obtain r1 st1 where step: "scopedEntry_body rec fs entryPath scope t d e (results, st) = (r1, st1)"
    by (cases "scopedEntry_body rec fs entryPath scope t d e (results, st)")
  from scopedEntry_body_all [of rec Q d results fs entryPath scope t e st, OF assms Cons.prems] step
  have "\<forall>i \<in> set r1. Q i" by simp
  from Cons.IH [OF this, of st1] step show ?case by simp
qed

lemma entry_body_all:
  assumes rec: "\<And>q s i. i \<in> set (fst (rec q s)) \<Longrightarrow> Q i"
    and hit: "\<And>q v. Q (installed q v d)"
    and store: "\<And>s i. i \<in> set (fst (findInPnpmDirectory fs (path_join p ''.pnpm'') t (d + 1) s)) \<Longrightarrow> Q i"
    and acc: "\<forall>i \<in> set results. Q i"
  shows "\<forall>i \<in> set (fst (entry_body rec fs p t d e (results, st))). Q i"
proof -
  let ?ep = "path_join p (d_name e)"
  let ?r1 = "if d_name e = t then results @ [installed ?ep (readVersion fs ?ep) d] else results"
  have r1: "\<forall>i \<in> set ?r1. Q i" using acc hit by simp
  obtain nested st' where n: "rec (path_join ?ep ''node_modules'') st = (nested, st')"
    by (cases "rec (path_join ?ep ''node_modules'') st")
  from rec [of _ "path_join ?ep ''node_modules''" st] n have nested: "\<forall>i \<in> set nested. Q i" by simp
  obtain hits st2 where h: "findInPnpmDirectory fs (path_join p ''.pnpm'') t (d + 1) st = (hits, st2)"
    by (cases "findInPnpmDirectory fs (path_join p ''.pnpm'') t (d + 1) st")
  from store [of _ st] h have hits: "\<forall>i \<in> set hits. Q i" by simp
  have scoped: "\<forall>i \<in> set (fst (for_scopedEntries rec fs ?ep (d_name e) t d es (results, s))). Q i"
    for es s
    using for_scopedEntries_all [of rec Q d results fs ?ep "d_name e" t es s, OF rec hit acc] .
  show ?thesis
  proof (cases "\<not> d_isDirectory e \<and> \<not> d_isSymbolicLink e")
    case True
    with acc show ?thesis by simp
  next
    case kind: False
    show ?thesis
    proof (cases "d_name e = ''.pnpm''")
      case True
      with kind h hits acc show ?thesis by (auto simp: Let_def)
    next
      case notstore: False
      show ?thesis
      proof (cases "prefix ''@'' (d_name e)")
        case True
        with kind notstore scoped acc show ?thesis
          by (auto simp: Let_def readdir_def split: option.splits)
      next
        case False
        with kind notstore r1 n nested show ?thesis by (auto simp: Let_def split: if_splits)
      qed
    qed
  qed
qed

lemma for_entries_all:
  assumes "\<And>q s i. i \<in> set (fst (rec q s)) \<Longrightarrow> Q i"
    and "\<And>q v. Q (installed q v d)"
    and "\<And>s i. i \<in> set (fst (findInPnpmDirectory fs (path_join p ''.pnpm'') t (d + 1) s)) \<Longrightarrow> Q i"
  shows "\<forall>i \<in> set results. Q i \<Longrightarrow>
         \<forall>i \<in> set (fst (for_entries rec fs p t d es (results, st))). Q i"
proof (induction es arbitrary: results st)
  case Nil
  then show ?case by simp
next
  case (Cons e es)
  obtain r1 st1 where step: "entry_body rec fs p t d e (results, st) = (r1, st1)"
    by (cases "entry_body rec fs p t d e (results, st)")
  from entry_body_all [of rec Q d fs p t results e st, OF assms Cons.prems] step
  have "\<forall>i \<in> set r1. Q i" by simp
  from Cons.IH [OF this, of st1] step show ?case by simp
qed

lemma findPackageRecursively_over_depth:
  "depth > maxDepth \<Longrightarrow> findPackageRecursively fs p t depth maxDepth st = ([], st)"
  by (subst findPackageRecursively.simps) simp

lemma findPackageRecursively_depths:
  "i \<in> set (fst (findPackageRecursively fs p t depth maxDepth st)) \<Longrightarrow>
   depth \<le> i_depth i \<and>
   (i_depth i \<le> maxDepth \<or>
    i_depth i = maxDepth + 1 \<and> (\<exists>q E. i_path i = packageInNodeModules (path_join q ''.pnpm'') E t))"
proof (induction fs p t depth maxDepth st arbitrary: i rule: findPackageRecursively.induct)
  case (1 fs p t depth maxDepth st)
  let ?Q = "\<lambda>i. depth \<le> i_depth i \<and>
     (i_depth i \<le> maxDepth \<or>
      i_depth i = maxDepth + 1 \<and> (\<exists>q E. i_path i = packageInNodeModules (path_join q ''.pnpm'') E t))"
  let ?rec = "\<lambda>nested s. findPackageRecursively fs nested t (depth + 1) maxDepth s"
  show ?case
  proof (cases "depth > maxDepth \<or> \<not> existsSync fs p")
    case True
    with "1.prems" show ?thesis by (subst (asm) findPackageRecursively.simps) simp
  next
    case guard: False
    show ?thesis
    proof (cases "cycleCheck fs p st")
      case None
      with guard "1.prems" show ?thesis by (subst (asm) findPackageRecursively.simps) simp
    next
      case (Some st1)
      show ?thesis
      proof (cases "readdirSync fs p")
        case None
        with guard Some "1.prems" show ?thesis
          by (subst (asm) findPackageRecursively.simps) (simp add: readdir_def)
      next
        case (Some entries)
        let ?st2 = "st1\<lparr>readdirCalls := readdirCalls st1 @ [(Root, p)]\<rparr>"
        from guard \<open>cycleCheck fs p st = Some st1\<close> Some
        have unfold: "findPackageRecursively fs p t depth maxDepth st =
            for_entries ?rec fs p t depth entries ([], ?st2)"
          by (subst findPackageRecursively.simps) (simp add: readdir_def)
        have rec: "?Q j" if "j \<in> set (fst (?rec q s))" for q s j
        proof -
          have rd: "(Some entries, ?st2) = readdir fs Root p st1"
            using Some by (simp add: readdir_def)
          from "1.IH" [OF guard \<open>cycleCheck fs p st = Some st1\<close> rd refl, of j q s] that
          have "depth + 1 \<le> i_depth j \<and>
            (i_depth j \<le> maxDepth \<or>
             i_depth j = maxDepth + 1 \<and>
             (\<exists>q E. i_path j = packageInNodeModules (path_join q ''.pnpm'') E t))"
            by (simp add: readdir_def)
          then show ?thesis by auto
        qed
        have hit: "?Q (installed q v depth)" for q v
          using guard by (simp add: installed_def)
        have store: "?Q j"
          if "j \<in> set (fst (findInPnpmDirectory fs (path_join p ''.pnpm'') t (depth + 1) s))" for s j
          using findInPnpmDirectory_results [OF that] guard by auto
        from for_entries_all [of ?rec ?Q depth fs p t "[]" entries ?st2, OF rec hit store]
             "1.prems" unfold
        show ?thesis by simp
      qed
    qed
  qed
qed

text \<open>
  C5 (as stated in the specification): with \<^verbatim>\<open>maxDepth = 5\<close> no instance is produced
  at a depth beyond the bound.  A hit in the content store is recorded with
  \<^verbatim>\<open>depth + 1\<close> (line 246), and the store is read without a depth check, so a store
  in the \<^verbatim>\<open>node_modules\<close> directory at depth 5 yields an instance of depth 6.
\<close>

theorem C5_depth_counterexample:
  "map i_depth (findInstances deep_fs [''proj'', ''node_modules''] ''evil-pkg'') = [6]"
  by code_simp

text \<open>
  C5 (amended): a call entered with \<^verbatim>\<open>depth > maxDepth\<close> returns the empty sequence
  and reads nothing, so a package that exists only in a \<^verbatim>\<open>node_modules\<close> directory at
  depth \<^verbatim>\<open>maxDepth + 1\<close> is not found.  Every instance produced by a call entered at
  \<^verbatim>\<open>depth\<close> has a depth of at least \<^verbatim>\<open>depth\<close> and at most \<^verbatim>\<open>maxDepth\<close>, except the
  hits of a content store, which may have depth \<^verbatim>\<open>maxDepth + 1\<close>.
\<close>

theorem C5_depth_bound:
  "(depth > maxDepth \<longrightarrow> findPackageRecursively fs p t depth maxDepth st = ([], st)) \<and>
   (i \<in> set (fst (findPackageRecursively fs p t depth maxDepth st)) \<longrightarrow>
      depth \<le> i_depth i \<and>
      (i_depth i \<le> maxDepth \<or>
       i_depth i = maxDepth + 1 \<and>
       (\<exists>q E. i_path i = packageInNodeModules (path_join q ''.pnpm'') E t))) \<and>
   (j \<in> set (findInstances fs p t) \<longrightarrow>
      i_depth j \<le> 5 \<or>
      i_depth j = 6 \<and> (\<exists>q E. i_path j = packageInNodeModules (path_join q ''.pnpm'') E t))"
proof -
  have over: "depth > maxDepth \<longrightarrow> findPackageRecursively fs p t depth maxDepth st = ([], st)"
    by (simp add: findPackageRecursively_over_depth)
  have bound: "i \<in> set (fst (findPackageRecursively fs p t depth maxDepth st)) \<longrightarrow>
      depth \<le> i_depth i \<and>
      (i_depth i \<le> maxDepth \<or>
       i_depth i = maxDepth + 1 \<and>
       (\<exists>q E. i_path i = packageInNodeModules (path_join q ''.pnpm'') E t))"
    using findPackageRecursively_depths [of i fs p t depth maxDepth st] by blast
  have default: "j \<in> set (findInstances fs p t) \<longrightarrow>
      i_depth j \<le> 5 \<or>
      i_depth j = 6 \<and> (\<exists>q E. i_path j = packageInNodeModules (path_join q ''.pnpm'') E t)"
    using findPackageRecursively_depths [of j fs p t 0 5 new_walk]
    by (simp add: findInstances_def)
  from over bound default show ?thesis by blast
qed

theorem C5_depth_bound_witness:
  "(6::nat) > 5 \<and>
   findPackageRecursively deep_fs (chain 6) ''deep-pkg'' 6 5 new_walk = ([], new_walk) \<and>
   existsSync deep_fs (chain 6 @ [''deep-pkg'']) \<and>
   findInstances deep_fs [''proj'', ''node_modules''] ''deep-pkg'' = [] \<and>
   installed (chain 5 @ [''.pnpm'', ''evil-pkg@1.0.0'', ''node_modules'', ''evil-pkg'']) (VString ''1.0.0'') 6
     \<in> set (findInstances deep_fs [''proj'', ''node_modules''] ''evil-pkg'') \<and>
   chain 5 @ [''.pnpm'', ''evil-pkg@1.0.0'', ''node_modules'', ''evil-pkg''] =
     packageInNodeModules (path_join (chain 5) ''.pnpm'') ''evil-pkg@1.0.0'' ''evil-pkg''"
proof -
  let ?hit = "installed (chain 5 @ [''.pnpm'', ''evil-pkg@1.0.0'', ''node_modules'', ''evil-pkg''])
                (VString ''1.0.0'') 6"
  have deeper: "(6::nat) > 5" by simp
  note facts = C5_depth_bound [of 5 6 deep_fs "chain 6" "''deep-pkg''" new_walk]
  from facts deeper
  have empty: "findPackageRecursively deep_fs (chain 6) ''deep-pkg'' 6 5 new_walk = ([], new_walk)"
    by blast
  have there: "existsSync deep_fs (chain 6 @ [''deep-pkg''])"
    by (simp add: deep_fs_def)
  have missed: "findInstances deep_fs [''proj'', ''node_modules''] ''deep-pkg'' = []"
    by code_simp
  have found: "?hit \<in> set (findInstances deep_fs [''proj'', ''node_modules''] ''evil-pkg'')"
    by code_simp
  have shape: "chain 5 @ [''.pnpm'', ''evil-pkg@1.0.0'', ''node_modules'', ''evil-pkg''] =
     packageInNodeModules (path_join (chain 5) ''.pnpm'') ''evil-pkg@1.0.0'' ''evil-pkg''"
    by code_simp
  from deeper empty there missed found shape show ?thesis by blast
qed

section \<open>The cycle guard\<close>

lemma resolved_roots_append:
  "resolved_roots fs (xs @ ys) = resolved_roots fs xs @ resolved_roots fs ys"
  by (induction fs xs rule: resolved_roots.induct) (auto split: option.splits)

lemma roots_once_refl: "roots_once fs st st"
  by (auto simp: roots_once_def intro: exI [of _ "[]"])

lemma roots_once_trans:
  assumes "roots_once fs st st1" and "roots_once fs st1 st2"
  shows "roots_once fs st st2"
proof -
  from assms(1) obtain n1 where n1: "readdirCalls st1 = readdirCalls st @ n1"
    "distinct (resolved_roots fs n1)" "set (resolved_roots fs n1) \<inter> visitedPaths st = {}"
    "visitedPaths st1 = visitedPaths st \<union> set (resolved_roots fs n1)"
    by (auto simp: roots_once_def)
  from assms(2) obtain n2 where n2: "readdirCalls st2 = readdirCalls st1 @ n2"
    "distinct (resolved_roots fs n2)" "set (resolved_roots fs n2) \<inter> visitedPaths st1 = {}"
    "visitedPaths st2 = visitedPaths st1 \<union> set (resolved_roots fs n2)"
    by (auto simp: roots_once_def)
  have "readdirCalls st2 = readdirCalls st @ (n1 @ n2)" using n1 n2 by simp
  moreover have "distinct (resolved_roots fs (n1 @ n2))"
    using n1 n2 by (auto simp: resolved_roots_append)
  moreover have "set (resolved_roots fs (n1 @ n2)) \<inter> visitedPaths st = {}"
    using n1 n2 by (auto simp: resolved_roots_append)
  moreover have "visitedPaths st2 = visitedPaths st \<union> set (resolved_roots fs (n1 @ n2))"
    using n1 n2 by (auto simp: resolved_roots_append)
  ultimately show ?thesis unfolding roots_once_def by blast
qed

lemma roots_once_readdir:
  "site \<noteq> Root \<Longrightarrow> roots_once fs st (snd (readdir fs site p st))"
  by (auto simp: roots_once_def readdir_def)

lemma roots_once_findInPnpmDirectory:
  "roots_once fs st (snd (findInPnpmDirectory fs pnpmPath t d st))"
  using roots_once_readdir [of PnpmStore fs st pnpmPath]
  by (auto simp: findInPnpmDirectory_def split: prod.splits option.splits)

lemma roots_once_scopedEntry_body:
  assumes rec: "\<And>q s. roots_once fs s (snd (rec q s))"
  shows "roots_once fs st (snd (scopedEntry_body rec fs entryPath scope t d e (results, st)))"
  using rec [of st] roots_once_refl [of fs st]
  by (auto simp: Let_def split: prod.splits) (metis snd_conv)+

lemma roots_once_for_scopedEntries:
  assumes rec: "\<And>q s. roots_once fs s (snd (rec q s))"
  shows "roots_once fs st (snd (for_scopedEntries rec fs entryPath scope t d es (results, st)))"
proof (induction es arbitrary: results st)
  case Nil
  then show ?case by (simp add: roots_once_refl)
next
  case (Cons e es)
  obtain r1 st1 where step: "scopedEntry_body rec fs entryPath scope t d e (results, st) = (r1, st1)"
    by (cases "scopedEntry_body rec fs entryPath scope t d e (results, st)")
  from roots_once_scopedEntry_body [of fs rec st entryPath scope t d e results, OF rec] step
  have "roots_once fs st st1" by simp
  from roots_once_trans [OF this Cons.IH [of st1 r1]] step show ?case by simp
qed

lemma roots_once_entry_body:
  assumes rec: "\<And>q s. roots_once fs s (snd (rec q s))"
  shows "roots_once fs st (snd (entry_body rec fs p t d e (results, st)))"
proof -
  let ?ep = "path_join p (d_name e)"
  let ?st' = "st\<lparr>readdirCalls := readdirCalls st @ [(ScopeDirectory, ?ep)]\<rparr>"
  have scope_read: "roots_once fs st ?st'"
    using roots_once_readdir [of ScopeDirectory fs st ?ep] by (simp add: readdir_def)
  have scoped: "roots_once fs st (snd (for_scopedEntries rec fs ?ep (d_name e) t d es (results, ?st')))"
    for es
    using roots_once_trans [OF scope_read roots_once_for_scopedEntries [of fs rec ?st', OF rec]] .
  obtain nested st1 where n: "rec (path_join ?ep ''node_modules'') st = (nested, st1)"
    by (cases "rec (path_join ?ep ''node_modules'') st")
  with rec [of st "path_join ?ep ''node_modules''"] have nested: "roots_once fs st st1" by simp
  obtain hits st2 where h: "findInPnpmDirectory fs ?ep t (d + 1) st = (hits, st2)"
    by (cases "findInPnpmDirectory fs ?ep t (d + 1) st")
  with roots_once_findInPnpmDirectory [of fs st ?ep t "d + 1"] have store: "roots_once fs st st2"
    by simp
  show ?thesis
  proof (cases "\<not> d_isDirectory e \<and> \<not> d_isSymbolicLink e")
    case True
    then show ?thesis by (simp add: roots_once_refl)
  next
    case kind: False
    show ?thesis
    proof (cases "d_name e = ''.pnpm''")
      case True
      with kind h store show ?thesis by (auto simp: Let_def)
    next
      case notstore: False
      show ?thesis
      proof (cases "prefix ''@'' (d_name e)")
        case True
        with kind notstore scoped scope_read show ?thesis
          by (auto simp: Let_def readdir_def split: option.splits)
      next
        case False
        with kind notstore n nested roots_once_refl [of fs st] show ?thesis
          by (auto simp: Let_def split: if_splits)
      qed
    qed
  qed
qed

lemma roots_once_for_entries:
  assumes rec: "\<And>q s. roots_once fs s (snd (rec q s))"
  shows "roots_once fs st (snd (for_entries rec fs p t d es (results, st)))"
proof (induction es arbitrary: results st)
  case Nil
  then show ?case by (simp add: roots_once_refl)
next
  case (Cons e es)
  obtain r1 st1 where step: "entry_body rec fs p t d e (results, st) = (r1, st1)"
    by (cases "entry_body rec fs p t d e (results, st)")
  from roots_once_entry_body [of fs rec st p t d e results, OF rec] step
  have "roots_once fs st st1" by simp
  from roots_once_trans [OF this Cons.IH [of st1 r1]] step show ?case by simp
qed

lemma roots_once_root:
  assumes "cycleCheck fs p st = Some st1"
  shows "roots_once fs st (st1\<lparr>readdirCalls := readdirCalls st1 @ [(Root, p)]\<rparr>)"
  using assms unfolding roots_once_def cycleCheck_def
  by (intro exI [of _ "[(Root, p)]"]) (auto split: option.splits if_splits)

lemma findPackageRecursively_guard:
  assumes "realpathSync fs p = Some r" and "r \<in> visitedPaths st"
  shows "findPackageRecursively fs p t d md st = ([], st)"
  using assms by (subst findPackageRecursively.simps) (simp add: cycleCheck_def)

lemma roots_once_findPackageRecursively:
  "roots_once fs st (snd (findPackageRecursively fs p t d md st))"
proof (induction fs p t d md st rule: findPackageRecursively.induct)
  case (1 fs p t depth maxDepth st)
  let ?rec = "\<lambda>nested s. findPackageRecursively fs nested t (depth + 1) maxDepth s"
  show ?case
  proof (cases "depth > maxDepth \<or> \<not> existsSync fs p")
    case True
    then show ?thesis by (subst findPackageRecursively.simps) (simp add: roots_once_refl)
  next
    case guard: False
    show ?thesis
    proof (cases "cycleCheck fs p st")
      case None
      with guard show ?thesis by (subst findPackageRecursively.simps) (simp add: roots_once_refl)
    next
      case (Some st1)
      let ?st2 = "st1\<lparr>readdirCalls := readdirCalls st1 @ [(Root, p)]\<rparr>"
      have root: "roots_once fs st ?st2" using Some by (rule roots_once_root)
      show ?thesis
      proof (cases "readdirSync fs p")
        case None
        with guard Some root show ?thesis
          by (subst findPackageRecursively.simps) (simp add: readdir_def)
      next
        case entries: (Some entries)
        from guard Some entries
        have unfold: "findPackageRecursively fs p t depth maxDepth st =
            for_entries ?rec fs p t depth entries ([], ?st2)"
          by (subst findPackageRecursively.simps) (simp add: readdir_def)
        have rd: "(Some entries, ?st2) = readdir fs Root p st1"
          using entries by (simp add: readdir_def)
        have rec: "roots_once fs s (snd (?rec q s))" for q s
          using "1.IH" [OF guard Some rd refl] .
        from roots_once_trans [OF root roots_once_for_entries [of fs ?rec ?st2, OF rec]] unfold
        show ?thesis by simp
      qed
    qed
  qed
qed

text \<open>
  C4 (as stated in the specification): within one search the walker never enumerates
  the same resolved real path twice.  The visited set is consulted only at the root of
  a recursive call; a scope directory and the \<^verbatim>\<open>.pnpm\<close> store are read without it.
  With a scope directory and a link to it in the same \<^verbatim>\<open>node_modules\<close>, the three
  directories read by the search resolve to two real paths.
\<close>

theorem C4_real_path_twice_counterexample:
  "map (realpathSync alias_fs)
     (map snd (readdirCalls
        (snd (findPackageRecursively alias_fs [''proj'', ''node_modules''] ''@s/c'' 0 5 new_walk)))) =
   [Some [''proj'', ''node_modules''],
    Some [''proj'', ''node_modules'', ''@s''],
    Some [''proj'', ''node_modules'', ''@s'']]"
  by code_simp

text \<open>
  C4 (amended): within one search no resolved real path is enumerated twice as the root
  of a \<^verbatim>\<open>findPackageRecursively\<close> call.  A call whose root resolves to a path that is
  already in the visited set returns the empty result and reads nothing; the roots that
  a call does read are pairwise different, none was in the set before, and all are in
  the set afterwards.  Scope directories and the store are read without the check.  The
  walk ends on every tree (the definition of \<open>findPackageRecursively\<close> is total, by the
  depth measure), and on the ring \<^verbatim>\<open>a \<rightarrow> b \<rightarrow> a\<close> it reads each of
  the three real \<^verbatim>\<open>node_modules\<close> directories once.
\<close>

theorem C4_roots_enumerated_once:
  "(realpathSync fs p = Some r \<and> r \<in> visitedPaths st \<longrightarrow>
      findPackageRecursively fs p t d md st = ([], st)) \<and>
   (\<exists>new. readdirCalls (snd (findPackageRecursively fs p t d md st)) = readdirCalls st @ new \<and>
      distinct (resolved_roots fs new) \<and>
      set (resolved_roots fs new) \<inter> visitedPaths st = {} \<and>
      visitedPaths (snd (findPackageRecursively fs p t d md st)) =
        visitedPaths st \<union> set (resolved_roots fs new)) \<and>
   findPackageRecursively ring_fs [''proj'', ''node_modules''] ''a'' 0 5 new_walk =
     ([installed [''proj'', ''node_modules'', ''a''] (VString ''unknown'') 0,
       installed [''proj'', ''node_modules'', ''a'', ''node_modules'', ''b'', ''node_modules'', ''a'']
         (VString ''unknown'') 2],
      \<lparr>visitedPaths =
         {[''proj'', ''node_modules'', ''b'', ''node_modules''],
          [''proj'', ''node_modules'', ''a'', ''node_modules''],
          [''proj'', ''node_modules'']},
       readdirCalls =
         [(Root, [''proj'', ''node_modules'']),
          (Root, [''proj'', ''node_modules'', ''a'', ''node_modules'']),
          (Root, [''proj'', ''node_modules'', ''a'', ''node_modules'', ''b'', ''node_modules''])]\<rparr>)"
proof -
  have guard: "realpathSync fs p = Some r \<and> r \<in> visitedPaths st \<longrightarrow>
      findPackageRecursively fs p t d md st = ([], st)"
    by (simp add: findPackageRecursively_guard)
  have once: "\<exists>new. readdirCalls (snd (findPackageRecursively fs p t d md st)) = readdirCalls st @ new \<and>
      distinct (resolved_roots fs new) \<and>
      set (resolved_roots fs new) \<inter> visitedPaths st = {} \<and>
      visitedPaths (snd (findPackageRecursively fs p t d md st)) =
        visitedPaths st \<union> set (resolved_roots fs new)"
    using roots_once_findPackageRecursively [of fs st p t d md] by (simp add: roots_once_def)
  have ring: "findPackageRecursively ring_fs [''proj'', ''node_modules''] ''a'' 0 5 new_walk =
     ([installed [''proj'', ''node_modules'', ''a''] (VString ''unknown'') 0,
       installed [''proj'', ''node_modules'', ''a'', ''node_modules'', ''b'', ''node_modules'', ''a'']
         (VString ''unknown'') 2],
      \<lparr>visitedPaths =
         {[''proj'', ''node_modules'', ''b'', ''node_modules''],
          [''proj'', ''node_modules'', ''a'', ''node_modules''],
          [''proj'', ''node_modules'']},
       readdirCalls =
         [(Root, [''proj'', ''node_modules'']),
          (Root, [''proj'', ''node_modules'', ''a'', ''node_modules'']),
          (Root, [''proj'', ''node_modules'', ''a'', ''node_modules'', ''b'', ''node_modules''])]\<rparr>)"
    by code_simp
  from guard once ring show ?thesis by blast
qed

theorem C4_roots_enumerated_once_witness:
  "realpathSync ring_fs [''proj'', ''node_modules'', ''a'', ''node_modules'', ''b'', ''node_modules'']
     = Some [''proj'', ''node_modules'', ''b'', ''node_modules''] \<and>
   [''proj'', ''node_modules'', ''b'', ''node_modules'']
     \<in> visitedPaths \<lparr>visitedPaths = {[''proj'', ''node_modules'', ''b'', ''node_modules'']},
                      readdirCalls = []\<rparr> \<and>
   findPackageRecursively ring_fs
       [''proj'', ''node_modules'', ''a'', ''node_modules'', ''b'', ''node_modules''] ''a'' 2 5
       \<lparr>visitedPaths = {[''proj'', ''node_modules'', ''b'', ''node_modules'']}, readdirCalls = []\<rparr> =
     ([], \<lparr>visitedPaths = {[''proj'', ''node_modules'', ''b'', ''node_modules'']}, readdirCalls = []\<rparr>) \<and>
   resolved_roots ring_fs
       [(Root, [''proj'', ''node_modules'']),
        (Root, [''proj'', ''node_modules'', ''a'', ''node_modules'']),
        (Root, [''proj'', ''node_modules'', ''a'', ''node_modules'', ''b'', ''node_modules''])] =
     [[''proj'', ''node_modules''],
      [''proj'', ''node_modules'', ''a'', ''node_modules''],
      [''proj'', ''node_modules'', ''b'', ''node_modules'']]"
proof -
  let ?p = "[''proj'', ''node_modules'', ''a'', ''node_modules'', ''b'', ''node_modules'']"
  let ?r = "[''proj'', ''node_modules'', ''b'', ''node_modules'']"
  let ?st = "\<lparr>visitedPaths = {?r}, readdirCalls = []\<rparr>"
  have real: "realpathSync ring_fs ?p = Some ?r"
    by code_simp
  have seen: "?r \<in> visitedPaths ?st"
    by simp
  from C4_roots_enumerated_once [of ring_fs ?p ?r ?st "''a''" 2 5] real seen
  have stopped: "findPackageRecursively ring_fs ?p ''a'' 2 5 ?st = ([], ?st)"
    by blast
  have roots: "resolved_roots ring_fs
       [(Root, [''proj'', ''node_modules'']),
        (Root, [''proj'', ''node_modules'', ''a'', ''node_modules'']),
        (Root, ?p)] =
     [[''proj'', ''node_modules''], [''proj'', ''node_modules'', ''a'', ''node_modules''], ?r]"
    by code_simp
  from real seen stopped roots show ?thesis by blast
qed

section \<open>Installed findings are pairwise different\<close>

lemma split_slash_no_slash: "CHR ''/'' \<notin> set n \<Longrightarrow> split_slash n = [n]"
  by (induction n) auto

lemma path_join_name: "entry_name_ok n \<Longrightarrow> path_join p n = p @ [n]"
  by (simp add: path_join_def split_slash_no_slash join_segment_def entry_name_ok_def)

lemma path_join_node_modules [simp]: "path_join p ''node_modules'' = p @ [''node_modules'']"
  by (rule path_join_name) (simp add: entry_name_ok_def)

lemma path_join_pnpm [simp]: "path_join p ''.pnpm'' = p @ [''.pnpm'']"
  by (rule path_join_name) (simp add: entry_name_ok_def)






lemma hits_under_Nil [simp]: "hits_under p A []"
  by (simp add: hits_under_def)




















end
